theory Spec2Isabelle
  imports Main "HOL-Library.Sublist" "HOL-Library.Char_ord" "HOL-Library.List_Lexorder"
begin

section \<open>Path strings (posixpath, as used by main.py)\<close>

text \<open>
  Paths are Python \<open>str\<close> values, modelled as \<open>string\<close>. The functions below follow
  CPython's \<open>posixpath\<close> module, which \<open>main.py\<close> calls as \<open>os.path.join\<close>,
  \<open>os.path.dirname\<close>, \<open>os.path.basename\<close> and \<open>os.path.commonpath\<close>.
\<close>

datatype py_error = ValueError | IndexError | AttributeError | OSError string

text \<open>\<open>s.split('/')\<close>: never empty; \<open>''''\<close> gives \<open>['''']\<close>.\<close>

fun split_sep :: "string \<Rightarrow> string list" where
  "split_sep [] = [[]]"
| "split_sep (c # cs) =
     (if c = CHR ''/'' then [] # split_sep cs
      else (case split_sep cs of [] \<Rightarrow> [[c]] | w # ws \<Rightarrow> (c # w) # ws))"

text \<open>\<open>'/'.join(xs)\<close>.\<close>

fun join_sep :: "string list \<Rightarrow> string" where
  "join_sep [] = []"
| "join_sep [x] = x"
| "join_sep (x # y # ys) = x @ CHR ''/'' # join_sep (y # ys)"

text \<open>\<open>p[:1] == '/'\<close>, the test \<open>commonpath\<close> and \<open>join\<close> use for an absolute path.\<close>

definition isabs :: "string \<Rightarrow> bool" where
  "isabs p = (take 1 p = ''/'')"

text \<open>
  \<open>os.path.join(a, b)\<close>: an absolute \<open>b\<close> replaces \<open>a\<close>; otherwise \<open>b\<close> is appended,
  with a separator unless \<open>a\<close> is empty or already ends with one.
\<close>

definition join :: "string \<Rightarrow> string \<Rightarrow> string" where
  "join a b =
     (if isabs b then b
      else if a = [] \<or> last a = CHR ''/'' then a @ b
      else a @ ''/'' @ b)"


text \<open>\<open>s.rstrip('/')\<close>.\<close>

definition rstrip_sep :: "string \<Rightarrow> string" where
  "rstrip_sep s = rev (dropWhile (\<lambda>c. c = CHR ''/'') (rev s))"

text \<open>\<open>p[:p.rfind('/') + 1]\<close> and \<open>p[p.rfind('/') + 1:]\<close>.\<close>

definition head_part :: "string \<Rightarrow> string" where
  "head_part p = rev (dropWhile (\<lambda>c. c \<noteq> CHR ''/'') (rev p))"


text \<open>
  \<open>os.path.dirname(p)\<close>: the head, with trailing separators stripped unless the head
  consists of separators only.
\<close>

definition dirname :: "string \<Rightarrow> string" where
  "dirname p =
     (let h = head_part p
      in if h \<noteq> [] \<and> \<not> (\<forall>c \<in> set h. c = CHR ''/'') then rstrip_sep h else h)"

text \<open>
  The components \<open>commonpath\<close> compares: \<open>[c for c in path.split('/') if c and c != '.']\<close>.
\<close>

definition components :: "string \<Rightarrow> string list" where
  "components p = filter (\<lambda>c. c \<noteq> [] \<and> c \<noteq> ''.'') (split_sep p)"

fun common_prefix :: "'a list \<Rightarrow> 'a list \<Rightarrow> 'a list" where
  "common_prefix (x # xs) (y # ys) = (if x = y then x # common_prefix xs ys else [])"
| "common_prefix _ _ = []"

text \<open>
  \<open>os.path.commonpath([p, q])\<close>. Mixing an absolute and a relative path raises
  \<open>ValueError\<close>. Otherwise the result is the longest common prefix of the two component
  lists, joined, after a leading separator when the paths are absolute. (CPython takes
  the prefix of \<open>min\<close> and \<open>max\<close> of the component lists, which for two lists are the two
  lists themselves in some order.)
\<close>

definition commonpath :: "string \<Rightarrow> string \<Rightarrow> py_error + string" where
  "commonpath p q =
     (if isabs p \<noteq> isabs q then Inl ValueError
      else Inr ((if isabs p then ''/'' else []) @
                join_sep (common_prefix (components p) (components q))))"

text \<open>
  The form of every result of \<open>os.path.realpath\<close>: a leading separator followed by the
  components, single separators between them, no empty and no \<open>.\<close> component, nothing
  after the last component.
\<close>

definition canonical :: "string \<Rightarrow> bool" where
  "canonical p = (p = ''/'' @ join_sep (components p))"

text \<open>
  Containment in the words of the specification: \<open>p\<close> is \<open>base\<close> itself or a true
  descendant of it, that is, \<open>base\<close> followed by a separator and more. A sibling whose
  name merely starts with the name of \<open>base\<close> is not a descendant.
\<close>

definition within :: "string \<Rightarrow> string \<Rightarrow> bool" where
  "within base p =
     (p = base \<or> prefix (if base = ''/'' then ''/'' else base @ ''/'') p)"

section \<open>The file system\<close>

text \<open>
  The tree that the handlers read and change. A node is a regular file with its content,
  a directory, or a symbolic link with its target. The tree is an association list from
  absolute paths to nodes in which the first entry for a path is the live one; the root
  directory \<open>/\<close> always exists.

  \<open>os.path.realpath\<close> is a parameter of the state: the handlers are verified for any
  function the platform provides for it. \<open>readable\<close> says which files the server process
  may open for reading.
\<close>

datatype node = File string | Dir | Link string

record os_state =
  tree :: "(string \<times> node) list"
  realpath :: "string \<Rightarrow> string"
  readable :: "string \<Rightarrow> bool"

text \<open>\<open>os.lstat\<close> does not follow a link in the last component, \<open>os.stat\<close> does.\<close>

definition lstat :: "os_state \<Rightarrow> string \<Rightarrow> node option" where
  "lstat os p = (if p = ''/'' then Some Dir else map_of (tree os) p)"

definition stat :: "os_state \<Rightarrow> string \<Rightarrow> node option" where
  "stat os p =
     (case lstat os p of
        Some (Link t) \<Rightarrow>
          (case lstat os (realpath os p) of Some (Link t') \<Rightarrow> None | n \<Rightarrow> n)
      | n \<Rightarrow> n)"

definition islink :: "os_state \<Rightarrow> string \<Rightarrow> bool" where
  "islink os p = (case lstat os p of Some (Link t) \<Rightarrow> True | _ \<Rightarrow> False)"

definition isdir :: "os_state \<Rightarrow> string \<Rightarrow> bool" where
  "isdir os p = (stat os p = Some Dir)"


definition put_node :: "os_state \<Rightarrow> string \<Rightarrow> node \<Rightarrow> os_state" where
  "put_node os p n = os\<lparr>tree := (p, n) # tree os\<rparr>"


text \<open>
  \<open>os.makedirs(p, exist_ok=True)\<close> for a canonical \<open>p\<close>: walking down from the root, a
  missing directory is created, an existing directory is passed, anything else raises.
  The directories created before an error stay.
\<close>

fun mkdir_chain :: "os_state \<Rightarrow> string \<Rightarrow> string list \<Rightarrow> py_error option \<times> os_state" where
  "mkdir_chain os cur [] = (None, os)"
| "mkdir_chain os cur (c # cs) =
     (let q = join cur c
      in case lstat os q of
           None \<Rightarrow> mkdir_chain (put_node os q Dir) q cs
         | Some n \<Rightarrow>
             if isdir os q then mkdir_chain os q cs
             else (Some (OSError (if cs = [] then ''EEXIST'' else ''ENOTDIR'')), os))"

definition makedirs :: "os_state \<Rightarrow> string \<Rightarrow> py_error option \<times> os_state" where
  "makedirs os p = mkdir_chain os ''/'' (components p)"

text \<open>
  \<open>open(p, 'wb')\<close> followed by \<open>f.write(body)\<close>: the file is created or truncated and
  holds \<open>body\<close> afterwards. A link in the last component is followed. Opening a
  directory, or a path whose parent is not a directory, raises.
\<close>

definition write_file :: "os_state \<Rightarrow> string \<Rightarrow> string \<Rightarrow> py_error option \<times> os_state" where
  "write_file os p body =
     (let t = (if islink os p then realpath os p else p)
      in case lstat os t of
           Some Dir \<Rightarrow> (Some (OSError ''EISDIR''), os)
         | Some (Link l) \<Rightarrow> (Some (OSError ''ELOOP''), os)
         | _ \<Rightarrow>
             if isdir os (dirname t) then (None, put_node os t (File body))
             else (Some (OSError ''ENOENT''), os))"






text \<open>
  \<open>os.path.realpath\<close> on a tree without symbolic links, for a process whose current
  directory is \<open>cwd\<close>: empty and \<open>.\<close> components are dropped, \<open>..\<close> removes the component
  before it (and nothing at the root), and the rest is joined below the root.
\<close>

fun resolve_dots :: "string list \<Rightarrow> string list \<Rightarrow> string list" where
  "resolve_dots acc [] = acc"
| "resolve_dots acc (c # cs) =
     (if c = [] \<or> c = ''.'' then resolve_dots acc cs
      else if c = ''..'' then resolve_dots (butlast acc) cs
      else resolve_dots (acc @ [c]) cs)"

definition realpath_plain :: "string \<Rightarrow> string \<Rightarrow> string" where
  "realpath_plain cwd p = ''/'' @ join_sep (resolve_dots [] (split_sep (join cwd p)))"

section \<open>Text files\<close>

text \<open>
  A file's content is the sequence of its characters. \<open>main.py\<close> opens text files with
  \<open>open(path, 'r', encoding='utf-8', errors='replace')\<close>, that is, with Python's default
  universal newlines: \<open>readline\<close> ends a line after \<open>\n\<close>, \<open>\r\n\<close> or \<open>\r\<close> and hands
  each of them over as \<open>\n\<close>. \<open>readline\<close> maps the unread input to the line and the rest;
  at end of file the line is empty, and an unterminated last line is returned as it is.
\<close>

abbreviation LF :: char where "LF \<equiv> CHR 0x0A"
abbreviation CR :: char where "CR \<equiv> CHR 0x0D"

fun readline :: "string \<Rightarrow> string \<times> string" where
  "readline [] = ([], [])"
| "readline (c # cs) =
     (if c = LF then ([LF], cs)
      else if c = CR then
        (case cs of [] \<Rightarrow> ([LF], []) | d # ds \<Rightarrow> if d = LF then ([LF], ds) else ([LF], cs))
      else (case readline cs of (l, r) \<Rightarrow> (c # l, r)))"

lemma readline_length: "length (snd (readline s)) \<le> length s"
proof (induction s)
  case Nil
  show ?case by simp
next
  case (Cons c cs)
  then show ?case by (cases "readline cs") (auto split: list.splits)
qed

lemma readline_shorter: "s \<noteq> [] \<Longrightarrow> length (snd (readline s)) < length s"
proof (cases s)
  case Nil
  assume "s \<noteq> []"
  with Nil show ?thesis by simp
next
  case (Cons c cs)
  then show ?thesis
    using readline_length [of cs] by (cases "readline cs") (auto split: list.splits)
qed

text \<open>Iterating over the file object, \<open>for line in f\<close>: every line up to end of file.\<close>

function read_lines :: "string \<Rightarrow> string list" where
  "read_lines s = (if s = [] then [] else (case readline s of (l, r) \<Rightarrow> l # read_lines r))"
  by pat_completeness auto
termination
  apply (relation "measure length")
   apply simp
  subgoal for s
    using readline_shorter [of s] by (cases "readline s") auto
  done

declare read_lines.simps [simp del]




section \<open>The web framework\<close>

text \<open>
  What a handler hands to Tornado: a status with the headers set and the body written,
  a redirect, a rendered template with its arguments, the redirect to the login page
  or the \<open>HTTPError\<close> of \<open>tornado.web.authenticated\<close>, or an exception that leaves the
  handler (Tornado answers it with status 500).
\<close>

datatype response =
    Reply nat "(string \<times> string) list" string
  | Redirect string
  | Login_redirect
  | Http_error nat
  | Render_login "string option"
  | Render_directory string "(string \<times> bool) list"
  | Render_file string string string bool
  | Raised py_error

text \<open>Python truth of an optional string: \<open>None\<close> and the empty string are false.\<close>

definition truthy :: "string option \<Rightarrow> bool" where
  "truthy v = (v \<noteq> None \<and> v \<noteq> Some [])"

definition py_or :: "string option \<Rightarrow> string option \<Rightarrow> string option" where
  "py_or a b = (if truthy a then a else b)"

text \<open>
  \<open>RequestHandler.set_header\<close> refuses a value with a control character (a code below
  \<open>0x20\<close>) by raising \<open>ValueError\<close>; any other value is stored as it is.
\<close>

definition set_header ::
  "(string \<times> string) list \<Rightarrow> string \<Rightarrow> string \<Rightarrow> py_error + (string \<times> string) list" where
  "set_header hs name v =
     (if \<exists>c \<in> set v. of_char c < (32::nat) then Inl ValueError
      else Inr (hs @ [(name, v)]))"

text \<open>
  Signed values (\<open>create_signed_value\<close>, \<open>decode_signed_value\<close>): a timestamp, the cookie
  name and the value, with a signature over the three under the application's
  \<open>cookie_secret\<close>. The keyed hash is a parameter \<open>mac\<close>. A value is accepted when the
  signature is the one the secret gives, the name is the one asked for, and the
  timestamp is at most \<open>max_age_days\<close> old.
\<close>

record signed_value =
  sv_timestamp :: int
  sv_name :: string
  sv_value :: string
  sv_signature :: string

type_synonym mac_fn = "string \<Rightarrow> int \<times> string \<times> string \<Rightarrow> string"

definition create_signed_value ::
  "mac_fn \<Rightarrow> string \<Rightarrow> string \<Rightarrow> string \<Rightarrow> int \<Rightarrow> signed_value" where
  "create_signed_value mac secret name v clock =
     \<lparr>sv_timestamp = clock, sv_name = name, sv_value = v,
      sv_signature = mac secret (clock, name, v)\<rparr>"

definition decode_signed_value ::
  "mac_fn \<Rightarrow> string \<Rightarrow> string \<Rightarrow> signed_value \<Rightarrow> int \<Rightarrow> string option" where
  "decode_signed_value mac secret name sv clock =
     (if sv_signature sv \<noteq> mac secret (sv_timestamp sv, sv_name sv, sv_value sv) then None
      else if sv_name sv \<noteq> name then None
      else if sv_timestamp sv < clock - 31 * 86400 then None
      else Some (sv_value sv))"

section \<open>Configuration (main)\<close>

text \<open>
  The module globals \<open>ACCESS_TOKEN\<close> and \<open>ROOT_DIR\<close>, and the settings \<open>main\<close> passes to
  the application. \<open>main\<close> takes the root and the token from the command line, the
  configuration file, the environment or a default, in this order, where an absent or
  empty value falls through (\<open>a or b\<close>); the last candidate for the token is a freshly
  generated one.
\<close>

record globals =
  ACCESS_TOKEN :: "string option"
  ROOT_DIR :: string

record settings =
  cookie_secret :: string
  login_url :: string

record options =
  opt_root :: "string option"
  opt_token :: "string option"

definition main ::
  "os_state \<Rightarrow> string \<Rightarrow> options \<Rightarrow> options \<Rightarrow> string option \<Rightarrow> string \<Rightarrow> globals \<times> settings" where
  "main os cwd args config environ_token generated =
     (let root = the (py_or (py_or (opt_root args) (opt_root config)) (Some cwd));
          token = the (py_or (py_or (py_or (opt_token args) (opt_token config)) environ_token)
                    (Some generated))
      in (\<lparr>ACCESS_TOKEN = Some token, ROOT_DIR = realpath os root\<rparr>,
          \<lparr>cookie_secret = token, login_url = ''/login''\<rparr>))"

section \<open>Login and the session cookie\<close>

text \<open>
  \<open>get_secure_cookie\<close> and \<open>set_secure_cookie\<close> need a non-empty \<open>cookie_secret\<close>
  setting and raise otherwise. \<open>get_current_user\<close> (the same in \<open>BaseHandler\<close> and
  \<open>FileStreamHandler\<close>) is the decoded \<open>user\<close> cookie.
\<close>

datatype 'a outcome = Raises py_error | Returns 'a

definition get_secure_cookie ::
  "mac_fn \<Rightarrow> settings \<Rightarrow> int \<Rightarrow> string \<Rightarrow> signed_value option \<Rightarrow> string option outcome" where
  "get_secure_cookie mac st clock name cookie =
     (if cookie_secret st = [] then Raises (OSError ''cookie_secret'')
      else case cookie of
             None \<Rightarrow> Returns None
           | Some sv \<Rightarrow> Returns (decode_signed_value mac (cookie_secret st) name sv clock))"

definition get_current_user ::
  "mac_fn \<Rightarrow> settings \<Rightarrow> int \<Rightarrow> signed_value option \<Rightarrow> string option outcome" where
  "get_current_user mac st clock cookie = get_secure_cookie mac st clock ''user'' cookie"

definition set_secure_cookie ::
  "mac_fn \<Rightarrow> settings \<Rightarrow> int \<Rightarrow> string \<Rightarrow> string \<Rightarrow> signed_value outcome" where
  "set_secure_cookie mac st clock name v =
     (if cookie_secret st = [] then Raises (OSError ''cookie_secret'')
      else Returns (create_signed_value mac (cookie_secret st) name v clock))"

text \<open>\<open>LoginHandler.post\<close>: the response and the cookie it sets, if any.\<close>

definition LoginHandler_post ::
  "mac_fn \<Rightarrow> globals \<Rightarrow> settings \<Rightarrow> int \<Rightarrow> string \<Rightarrow> response \<times> signed_value option" where
  "LoginHandler_post mac g st clock token =
     (if Some token = ACCESS_TOKEN g then
        (case set_secure_cookie mac st clock ''user'' ''authenticated'' of
           Raises e \<Rightarrow> (Raised e, None)
         | Returns sv \<Rightarrow> (Redirect ''/'', Some sv))
      else (Render_login (Some ''Invalid token. Try again.''), None))"

section \<open>MainHandler.get\<close>



section \<open>FileStreamHandler\<close>

text \<open>
  The attributes a handler object gets while a connection lives: \<open>file_path\<close>,
  \<open>running\<close>, \<open>file\<close> (here \<open>file_obj\<close>) and \<open>periodic\<close>, each \<open>None\<close> until it is assigned. A handle has its
  read position and is open or closed; \<open>periodic\<close> holds whether the callback is
  started. \<open>closing\<close> records that the handler called \<open>self.close()\<close>.
\<close>

record handle =
  h_pos :: nat
  h_closed :: bool

record session =
  file_path :: "string option"
  running :: "bool option"
  file_obj :: "handle option"
  periodic :: "bool option"
  closing :: bool





text \<open>
  \<open>self.file.readline()\<close> on a handle at position \<open>pos\<close> of a file that now holds
  \<open>content\<close>: the line and the position after it. Positions count characters of the
  content; at or beyond the end the line is empty and the position stays.
\<close>

definition readline_at :: "string \<Rightarrow> nat \<Rightarrow> string \<times> nat" where
  "readline_at content pos =
     (case readline (drop pos content) of
        (l, r) \<Rightarrow> (l, pos + (length (drop pos content) - length r)))"

lemma readline_Nil_iff: "fst (readline s) = [] \<longleftrightarrow> s = []"
proof (cases s)
  case Nil
  then show ?thesis by simp
next
  case (Cons c cs)
  then show ?thesis by (cases "readline cs"; cases cs) auto
qed

lemma readline_at_progress:
  assumes "readline_at content pos = (l, p)" and "l \<noteq> []"
  shows "pos < p \<and> p \<le> length content"
proof -
  let ?s = "drop pos content"
  obtain l' r where lr: "readline ?s = (l', r)" by (cases "readline ?s")
  with assms(1) have l: "l = l'" and p: "p = pos + (length ?s - length r)"
    by (simp_all add: readline_at_def)
  from l assms(2) lr have "?s \<noteq> []" using readline_Nil_iff [of ?s] by auto
  then have "length r < length ?s" using readline_shorter [of ?s] lr by simp
  with p show ?thesis by auto
qed

lemma readline_at_ge: "pos \<le> snd (readline_at content pos)"
  by (cases "readline (drop pos content)") (simp add: readline_at_def)

text \<open>
  The loop of \<open>send_new_lines\<close>, entered with the handle at \<open>pos\<close>, the variable \<open>where\<close>
  and the \<open>line\<close> just read: while the line is not empty it is written to the client,
  \<open>where\<close> becomes the handle's position, and the next line is read. The result is the
  messages written, the handle's position and \<open>where\<close> at the exit.
\<close>

function while_line :: "string \<Rightarrow> nat \<Rightarrow> nat \<Rightarrow> string \<Rightarrow> string list \<times> nat \<times> nat" where
  "while_line content pos wh line =
     (if line = [] then ([], pos, wh)
      else (case readline_at content pos of
              (line', pos') \<Rightarrow>
                (case while_line content pos' pos line' of
                   (ms, p, w) \<Rightarrow> (line # ms, p, w))))"
  by pat_completeness auto
termination
  apply (relation "measure (\<lambda>(content, pos, wh, line).
           (length content - pos) + (if line = [] then 0 else 1))")
   apply simp
  subgoal for content pos wh line line' pos'
    using readline_at_progress [of content pos line' pos'] readline_at_ge [where content = content and pos = pos]
    by (cases "line' = []") (auto dest: sym)
  done

declare while_line.simps [simp del]

text \<open>
  \<open>FileStreamHandler.send_new_lines\<close>, one tick. The second argument is what the open
  handle gives at this tick: the content its file holds now, or the error its first
  operation raises. The result is the exception leaving the coroutine, if any, the
  messages written, and the handler afterwards.
\<close>

definition send_new_lines ::
  "session \<Rightarrow> py_error + string \<Rightarrow> py_error option \<times> string list \<times> session" where
  "send_new_lines s input =
     (case running s of
        None \<Rightarrow> (Some AttributeError, [], s)
      | Some False \<Rightarrow> (None, [], s)
      | Some True \<Rightarrow>
          (case file_obj s of
             None \<Rightarrow> (Some AttributeError, [], s)
           | Some h \<Rightarrow>
               if h_closed h then (Some ValueError, [], s)
               else
                 (case input of
                    Inl e \<Rightarrow> (Some e, [], s)
                  | Inr content \<Rightarrow>
                      (case readline_at content (h_pos h) of
                         (line, pos) \<Rightarrow>
                           (case while_line content pos (h_pos h) line of
                              (ms, p, w) \<Rightarrow>
                                (None, ms, s\<lparr>file_obj := Some (h\<lparr>h_pos := w\<rparr>)\<rparr>))))))"

text \<open>\<open>FileStreamHandler.on_close\<close>.\<close>

definition on_close :: "session \<Rightarrow> session" where
  "on_close s =
     s\<lparr>running := Some False,
       periodic := (case periodic s of None \<Rightarrow> None | Some b \<Rightarrow> Some False),
       file_obj := (case file_obj s of None \<Rightarrow> None | Some h \<Rightarrow> Some (h\<lparr>h_closed := True\<rparr>))\<rparr>"

text \<open>
  One firing of \<open>tornado.ioloop.PeriodicCallback\<close>: a started callback is run, an
  exception it raises is logged, and the callback stays scheduled. The result is the
  logged exception, the messages written, and the handler afterwards.
\<close>

definition periodic_run ::
  "session \<Rightarrow> py_error + string \<Rightarrow> py_error option \<times> string list \<times> session" where
  "periodic_run s input =
     (if periodic s = Some True then send_new_lines s input else (None, [], s))"

text \<open>The state \<open>Closed\<close> of a session: not running, no callback started, no open handle.\<close>

definition closed_session :: "session \<Rightarrow> bool" where
  "closed_session s =
     (running s = Some False \<and> periodic s \<noteq> Some True \<and>
      (case file_obj s of None \<Rightarrow> True | Some h \<Rightarrow> h_closed h))"

section \<open>UploadHandler.post\<close>

record file_info =
  filename :: string
  body :: string

text \<open>
  The loop over the files of a drag-and-drop upload, below the resolved directory
  \<open>dir_real\<close>: the response and the tree afterwards.
\<close>

fun upload_loop :: "os_state \<Rightarrow> string \<Rightarrow> file_info list \<Rightarrow> response \<times> os_state" where
  "upload_loop os dir_real [] = (Reply 200 [] ''Upload successful'', os)"
| "upload_loop os dir_real (fi # rest) =
     (let relative_path = filename fi;
          final_path_real = realpath os (join dir_real relative_path)
      in case commonpath final_path_real dir_real of
           Inl e \<Rightarrow> (Raised e, os)
         | Inr c \<Rightarrow>
             if c \<noteq> dir_real \<or> islink os final_path_real
             then (Reply 403 [] (''Forbidden path: '' @ relative_path), os)
             else
               (case makedirs os (dirname final_path_real) of
                  (Some e, os1) \<Rightarrow> (Raised e, os1)
                | (None, os1) \<Rightarrow>
                    (case write_file os1 final_path_real (body fi) of
                       (Some e, os2) \<Rightarrow> (Raised e, os2)
                     | (None, os2) \<Rightarrow> upload_loop os2 dir_real rest)))"

text \<open>
  \<open>UploadHandler.post\<close>. \<open>files\<close> and \<open>file\<close> are the lists of uploaded files under the
  form names \<open>files\<close> and \<open>file\<close>.
\<close>

definition UploadHandler_post ::
  "globals \<Rightarrow> os_state \<Rightarrow> string option \<Rightarrow> string \<Rightarrow> file_info list \<Rightarrow> file_info list
     \<Rightarrow> response \<times> os_state" where
  "UploadHandler_post g os user directory files file =
     (if \<not> truthy user then (Http_error 403, os)
      else if files = [] then
        (case file of
           [] \<Rightarrow> (Raised IndexError, os)
         | fi # _ \<Rightarrow>
             let rp = realpath os (join (ROOT_DIR g) directory)
             in case commonpath rp (ROOT_DIR g) of
                  Inl e \<Rightarrow> (Raised e, os)
                | Inr c \<Rightarrow>
                    if c \<noteq> ROOT_DIR g \<or> islink os rp then (Reply 403 [] ''Forbidden'', os)
                    else
                      (case makedirs os rp of
                         (Some e, os1) \<Rightarrow> (Raised e, os1)
                       | (None, os1) \<Rightarrow>
                           let file_realpath = realpath os1 (join rp (filename fi))
                           in case commonpath file_realpath (ROOT_DIR g) of
                                Inl e \<Rightarrow> (Raised e, os1)
                              | Inr c' \<Rightarrow>
                                  if c' \<noteq> ROOT_DIR g \<or> islink os1 file_realpath
                                  then (Reply 403 [] ''Forbidden'', os1)
                                  else
                                    (case write_file os1 file_realpath (body fi) of
                                       (Some e, os2) \<Rightarrow> (Raised e, os2)
                                     | (None, os2) \<Rightarrow> (Redirect (''/'' @ directory), os2))))
      else
        let dir_real = realpath os (join (ROOT_DIR g) directory)
        in case commonpath dir_real (ROOT_DIR g) of
             Inl e \<Rightarrow> (Raised e, os)
           | Inr c \<Rightarrow>
               if c \<noteq> ROOT_DIR g \<or> islink os dir_real then (Reply 403 [] ''Forbidden'', os)
               else upload_loop os dir_real files)"

section \<open>DeleteHandler.post and RenameHandler.post\<close>




section \<open>Notions of the specification and example data\<close>

text \<open>
  \<open>resolve(root, logicalPath)\<close> in the words of the specification: the path is accepted
  when the canonical join of root and logical path is the root or a true descendant of
  it and the canonical path is not a symbolic link.
\<close>

definition spec_resolve_accepts :: "os_state \<Rightarrow> string \<Rightarrow> string \<Rightarrow> bool" where
  "spec_resolve_accepts os root logicalPath =
     (let rp = realpath os (join root logicalPath) in within root rp \<and> \<not> islink os rp)"


text \<open>
  A small tree without symbolic links, served from \<open>/root\<close>, with a sibling directory
  whose name starts with the name of the root.
\<close>

definition example_os :: os_state where
  "example_os =
     \<lparr>tree = [(''/root'', Dir), (''/root/a'', Dir), (''/root/a/f'', File ''x''),
              (''/root-evil'', Dir), (''/root-evil/x'', File ''y'')],
      realpath = realpath_plain ''/'', readable = (\<lambda>p. True)\<rparr>"

definition example_globals :: globals where
  "example_globals = \<lparr>ACCESS_TOKEN = Some ''secret'', ROOT_DIR = ''/root''\<rparr>"

text \<open>
  The batch of the specification's example: the second of three entries leaves the
  target directory. \<open>example_os_after_one\<close> is the example tree with the first entry
  written.
\<close>

definition example_batch :: "file_info list" where
  "example_batch =
     [\<lparr>filename = ''one.txt'', body = ''1''\<rparr>,
      \<lparr>filename = ''../other-sibling/x'', body = ''2''\<rparr>,
      \<lparr>filename = ''three.txt'', body = ''3''\<rparr>]"

definition example_os_after_one :: os_state where
  "example_os_after_one = put_node example_os ''/root/a/one.txt'' (File ''1'')"


text \<open>
  A stand-in for the keyed hash, and command-line options that set the root and the
  token.
\<close>

definition example_mac :: mac_fn where
  "example_mac key msg = (case msg of (ts, name, v) \<Rightarrow> key @ ''|'' @ name @ ''|'' @ v)"

definition example_args :: options where
  "example_args = \<lparr>opt_root = Some ''/root'', opt_token = Some ''secret''\<rparr>"

definition no_options :: options where
  "no_options = \<lparr>opt_root = None, opt_token = None\<rparr>"

text \<open>
  The handler of a streaming connection on the file \<open>/root/a/f\<close> of the example tree,
  as \<open>open\<close> leaves it, and the example tree with a file that ends its line with CR LF.
\<close>

definition example_session :: session where
  "example_session =
     \<lparr>file_path = Some ''/root/a/f'', running = Some True,
      file_obj = Some \<lparr>h_pos = 1, h_closed = False\<rparr>, periodic = Some True, closing = False\<rparr>"


section \<open>Properties of the path functions\<close>

lemma split_sep_not_Nil: "split_sep s \<noteq> []"
  by (induction s) (auto split: list.splits)

lemma split_sep_append:
  "split_sep (a @ CHR ''/'' # b) = split_sep a @ split_sep b"
proof (induction a)
  case Nil
  show ?case by simp
next
  case (Cons c a)
  show ?case
  proof (cases "c = CHR ''/''")
    case True
    with Cons show ?thesis by simp
  next
    case False
    obtain w ws where ws: "split_sep a = w # ws"
      using split_sep_not_Nil [of a] by (cases "split_sep a") auto
    with Cons False show ?thesis by simp
  qed
qed

lemma split_sep_no_sep: "CHR ''/'' \<notin> set s \<Longrightarrow> split_sep s = [s]"
  by (induction s) auto

lemma split_sep_elems_no_sep: "c \<in> set (split_sep s) \<Longrightarrow> CHR ''/'' \<notin> set c"
proof (induction s arbitrary: c)
  case Nil
  then show ?case by simp
next
  case (Cons x s)
  obtain w ws where ws: "split_sep s = w # ws"
    using split_sep_not_Nil [of s] by (cases "split_sep s") auto
  show ?case
  proof (cases "x = CHR ''/''")
    case True
    with Cons show ?thesis by auto
  next
    case False
    with Cons.prems ws have "c = x # w \<or> c \<in> set ws" by auto
    then show ?thesis
    proof
      assume "c = x # w"
      moreover have "CHR ''/'' \<notin> set w" using Cons.IH [of w] ws by simp
      ultimately show ?thesis using False by auto
    next
      assume "c \<in> set ws"
      then show ?thesis using Cons.IH [of c] ws by simp
    qed
  qed
qed

lemma components_append:
  "components (a @ CHR ''/'' # b) = components a @ components b"
  by (simp add: components_def split_sep_append)

lemma components_elems:
  "c \<in> set (components p) \<Longrightarrow> c \<noteq> [] \<and> CHR ''/'' \<notin> set c"
  by (auto simp: components_def dest: split_sep_elems_no_sep)

lemma join_sep_Cons: "ys \<noteq> [] \<Longrightarrow> join_sep (x # ys) = x @ CHR ''/'' # join_sep ys"
  by (cases ys) auto

lemma join_sep_append:
  "xs \<noteq> [] \<Longrightarrow> ys \<noteq> [] \<Longrightarrow> join_sep (xs @ ys) = join_sep xs @ CHR ''/'' # join_sep ys"
proof (induction xs)
  case Nil
  then show ?case by simp
next
  case (Cons x xs)
  show ?case
  proof (cases "xs = []")
    case True
    with Cons.prems show ?thesis by (simp add: join_sep_Cons)
  next
    case False
    with Cons show ?thesis by (simp add: join_sep_Cons)
  qed
qed

lemma split_sep_join_sep:
  "xs \<noteq> [] \<Longrightarrow> \<forall>c \<in> set xs. CHR ''/'' \<notin> set c \<Longrightarrow> split_sep (join_sep xs) = xs"
proof (induction xs)
  case Nil
  then show ?case by simp
next
  case (Cons x xs)
  show ?case
  proof (cases "xs = []")
    case True
    with Cons.prems show ?thesis by (simp add: split_sep_no_sep)
  next
    case False
    with Cons show ?thesis
      by (simp add: join_sep_Cons split_sep_append split_sep_no_sep)
  qed
qed

lemma join_sep_eq_Nil:
  "\<forall>c \<in> set xs. c \<noteq> [] \<Longrightarrow> join_sep xs = [] \<Longrightarrow> xs = []"
  by (cases xs rule: join_sep.cases) auto

lemma join_sep_inject:
  assumes "\<forall>c \<in> set xs. c \<noteq> [] \<and> CHR ''/'' \<notin> set c"
    and "\<forall>c \<in> set ys. c \<noteq> [] \<and> CHR ''/'' \<notin> set c"
    and "join_sep xs = join_sep ys"
  shows "xs = ys"
proof (cases "xs = [] \<or> ys = []")
  case True
  have "join_sep xs = [] \<Longrightarrow> xs = []" "join_sep ys = [] \<Longrightarrow> ys = []"
    using assms(1,2) join_sep_eq_Nil [of xs] join_sep_eq_Nil [of ys] by blast+
  with True assms(3) show ?thesis by auto
next
  case False
  have "split_sep (join_sep xs) = xs" "split_sep (join_sep ys) = ys"
    using False assms(1,2) by (simp_all add: split_sep_join_sep)
  with assms(3) show ?thesis by metis
qed

lemma common_prefix_is_prefix:
  "prefix (common_prefix xs ys) xs \<and> prefix (common_prefix xs ys) ys"
  by (induction xs ys rule: common_prefix.induct) auto

lemma common_prefix_Nil2: "common_prefix xs [] = []"
  by (cases xs) auto

lemma common_prefix_append: "common_prefix (ys @ zs) ys = ys"
  by (induction ys) (auto simp: common_prefix_Nil2)

lemma common_prefix_eq_iff: "common_prefix xs ys = ys \<longleftrightarrow> prefix ys xs"
proof
  assume "common_prefix xs ys = ys"
  then show "prefix ys xs" using common_prefix_is_prefix [of xs ys] by simp
next
  assume "prefix ys xs"
  then obtain zs where "xs = ys @ zs" by (auto simp: prefix_def)
  then show "common_prefix xs ys = ys" by (simp add: common_prefix_append)
qed

lemma canonical_isabs: "canonical p \<Longrightarrow> isabs p"
  unfolding canonical_def isabs_def by (cases p) auto

lemma canonical_sep_append:
  assumes "canonical base" "base \<noteq> ''/''"
  shows "components base \<noteq> []"
  using assms unfolding canonical_def by (cases "components base") auto

lemma prefix_components_within:
  assumes cb: "canonical base" and cp: "canonical p"
    and pre: "prefix (components base) (components p)"
  shows "within base p"
proof -
  from pre obtain rest where rest: "components p = components base @ rest"
    by (auto simp: prefix_def)
  show ?thesis
  proof (cases "rest = []")
    case True
    with rest cb cp have "p = base" unfolding canonical_def by simp
    then show ?thesis by (simp add: within_def)
  next
    case False
    show ?thesis
    proof (cases "base = ''/''")
      case True
      from cp have "prefix ''/'' p" unfolding canonical_def by (cases p) auto
      with True show ?thesis by (simp add: within_def)
    next
      case nroot: False
      have ne: "components base \<noteq> []" using cb nroot by (rule canonical_sep_append)
      have "p = ''/'' @ join_sep (components base @ rest)"
        using cp rest unfolding canonical_def by simp
      also have "\<dots> = ''/'' @ join_sep (components base) @ CHR ''/'' # join_sep rest"
        using ne False by (simp add: join_sep_append)
      also have "\<dots> = (base @ ''/'') @ join_sep rest"
        using cb unfolding canonical_def by simp
      finally have "prefix (base @ ''/'') p" by (metis prefixI)
      with nroot show ?thesis by (simp add: within_def)
    qed
  qed
qed

lemma within_prefix_components:
  assumes "within base p"
  shows "prefix (components base) (components p)"
proof (cases "p = base")
  case True
  then show ?thesis by simp
next
  case False
  show ?thesis
  proof (cases "base = ''/''")
    case True
    then show ?thesis by (simp add: components_def)
  next
    case nroot: False
    with assms False obtain s where "p = (base @ ''/'') @ s"
      by (auto simp: within_def prefix_def)
    then have "p = base @ CHR ''/'' # s" by simp
    then have "components p = components base @ components s"
      by (simp only: components_append)
    then show ?thesis by simp
  qed
qed

text \<open>
  The test of \<open>main.py\<close>, \<open>os.path.commonpath([p, base]) != base\<close>, decides containment
  whenever both paths are results of \<open>realpath\<close>.
\<close>

lemma commonpath_eq_iff_within:
  assumes cb: "canonical base" and cp: "canonical p"
  shows "commonpath p base = Inr base \<longleftrightarrow> within base p"
proof -
  let ?c = "common_prefix (components p) (components base)"
  have elems: "\<forall>c \<in> set (components base). c \<noteq> [] \<and> CHR ''/'' \<notin> set c"
    using components_elems by blast
  have "prefix ?c (components base)" by (simp add: common_prefix_is_prefix)
  then have "set ?c \<subseteq> set (components base)" by (rule set_mono_prefix)
  with elems have elems': "\<forall>c \<in> set ?c. c \<noteq> [] \<and> CHR ''/'' \<notin> set c" by blast
  have "commonpath p base = Inr (''/'' @ join_sep ?c)"
    using canonical_isabs [OF cb] canonical_isabs [OF cp] by (simp add: commonpath_def)
  moreover have "base = ''/'' @ join_sep (components base)"
    using cb unfolding canonical_def .
  ultimately have "commonpath p base = Inr base \<longleftrightarrow> join_sep ?c = join_sep (components base)"
    by (metis Inr_inject same_append_eq)
  also have "\<dots> \<longleftrightarrow> ?c = components base"
    using join_sep_inject [OF elems' elems] by auto
  also have "\<dots> \<longleftrightarrow> prefix (components base) (components p)"
    by (rule common_prefix_eq_iff)
  also have "\<dots> \<longleftrightarrow> within base p"
    using prefix_components_within [OF cb cp] within_prefix_components by blast
  finally show ?thesis .
qed

section \<open>The containment test\<close>

lemma commonpath_guard:
  assumes "canonical base" and "canonical p"
  shows "\<exists>c. commonpath p base = Inr c \<and> (c = base \<longleftrightarrow> within base p)"
proof -
  have "isabs p = isabs base"
    using assms by (simp add: canonical_isabs)
  then obtain c where c: "commonpath p base = Inr c"
    by (simp add: commonpath_def)
  moreover have "c = base \<longleftrightarrow> within base p"
    using commonpath_eq_iff_within [OF assms] c by simp
  ultimately show ?thesis by blast
qed

lemma example_root: "ROOT_DIR example_globals = ''/root''"
  by (simp add: example_globals_def)

lemma example_realpath: "realpath example_os = realpath_plain ''/''"
  by (simp add: example_os_def)

lemma example_truthy: "truthy (Some ''authenticated'')"
  by (simp add: truthy_def)

lemma example_root_canonical: "canonical (ROOT_DIR example_globals)"
  by (simp add: example_root canonical_def components_def)

section \<open>C1: path resolution\<close>



section \<open>C2: rename\<close>




section \<open>The upload loop\<close>

lemma realpath_put_node [simp]: "realpath (put_node os p n) = realpath os"
  by (simp add: put_node_def)

lemma lstat_put_node:
  "lstat (put_node os p n) q = (if q = ''/'' then Some Dir else if q = p then Some n else lstat os q)"
  by (simp add: lstat_def put_node_def)

lemma lstat_root [simp]: "lstat os ''/'' = Some Dir"
  by (simp add: lstat_def)

lemma mkdir_chain_realpath [simp]: "realpath (snd (mkdir_chain os cur cs)) = realpath os"
  by (induction cs arbitrary: os cur) (auto simp: Let_def split: option.splits)

lemma mkdir_chain_lstat:
  "lstat (snd (mkdir_chain os cur cs)) q = lstat os q \<or>
   (lstat os q = None \<and> lstat (snd (mkdir_chain os cur cs)) q = Some Dir)"
proof (induction cs arbitrary: os cur)
  case Nil
  show ?case by simp
next
  case (Cons c cs)
  let ?q = "join cur c"
  show ?case
  proof (cases "lstat os ?q")
    case None
    then have ne: "?q \<noteq> ''/''" by (auto simp: lstat_def)
    have step: "snd (mkdir_chain os cur (c # cs)) = snd (mkdir_chain (put_node os ?q Dir) ?q cs)"
      using None by (simp add: Let_def)
    show ?thesis
      using Cons.IH [of "put_node os ?q Dir" ?q] None ne
      unfolding step by (auto simp: lstat_put_node split: if_splits)
  next
    case (Some n)
    then show ?thesis using Cons.IH [of os ?q] by (simp add: Let_def)
  qed
qed

lemma makedirs_realpath [simp]: "realpath (snd (makedirs os p)) = realpath os"
  by (simp add: makedirs_def)

lemma makedirs_lstat:
  "lstat (snd (makedirs os p)) q = lstat os q \<or>
   (lstat os q = None \<and> lstat (snd (makedirs os p)) q = Some Dir)"
  unfolding makedirs_def by (rule mkdir_chain_lstat)

lemma makedirs_islink: "islink (snd (makedirs os p)) q = islink os q"
  using makedirs_lstat [of os p q] by (auto simp: islink_def)

lemma write_file_realpath [simp]: "realpath (snd (write_file os p b)) = realpath os"
  by (auto simp: write_file_def Let_def split: option.splits node.splits)

lemma write_file_error: "write_file os p b = (Some e, os') \<Longrightarrow> os' = os"
  by (auto simp: write_file_def Let_def split: option.splits node.splits if_splits)

lemma write_file_lstat:
  assumes "write_file os p b = (None, os')" and "\<not> islink os p"
  shows "lstat os' q = (if q = p then Some (File b) else lstat os q)"
proof -
  have "p \<noteq> ''/''"
    using assms by (auto simp: write_file_def lstat_def Let_def)
  moreover have "os' = put_node os p (File b)"
    using assms by (auto simp: write_file_def Let_def split: option.splits node.splits if_splits)
  ultimately show ?thesis by (simp add: lstat_put_node)
qed


lemma upload_loop_Cons:
  assumes "canonical d" and "canonical (realpath os (join d (filename fi)))"
  shows "upload_loop os d (fi # rest) =
     (if within d (realpath os (join d (filename fi))) \<and>
         \<not> islink os (realpath os (join d (filename fi)))
      then (case makedirs os (dirname (realpath os (join d (filename fi)))) of
              (Some e, os1) \<Rightarrow> (Raised e, os1)
            | (None, os1) \<Rightarrow>
                (case write_file os1 (realpath os (join d (filename fi))) (body fi) of
                   (Some e, os2) \<Rightarrow> (Raised e, os2)
                 | (None, os2) \<Rightarrow> upload_loop os2 d rest))
      else (Reply 403 [] (''Forbidden path: '' @ filename fi), os))"
proof -
  obtain c where "commonpath (realpath os (join d (filename fi))) d = Inr c"
    and "c = d \<longleftrightarrow> within d (realpath os (join d (filename fi)))"
    using commonpath_guard [OF assms] by blast
  then show ?thesis by (simp add: Let_def)
qed

lemma upload_loop_inv:
  assumes "canonical d"
    and "\<forall>fi \<in> set fs. canonical (realpath os (join d (filename fi)))"
  shows "realpath (snd (upload_loop os d fs)) = realpath os \<and>
         (\<forall>q b. lstat (snd (upload_loop os d fs)) q = Some (File b) \<longrightarrow>
            lstat os q = Some (File b) \<or>
            (within d q \<and> (\<exists>fi \<in> set fs. q = realpath os (join d (filename fi)) \<and> b = body fi)))"
  using assms(2)
proof (induction fs arbitrary: os)
  case Nil
  show ?case by simp
next
  case (Cons fi rest)
  let ?fp = "realpath os (join d (filename fi))"
  have cfp: "canonical ?fp" using Cons.prems by simp
  note step = upload_loop_Cons [OF assms(1) cfp, of rest]
  show ?case
  proof (cases "within d ?fp \<and> \<not> islink os ?fp")
    case False
    then show ?thesis unfolding step by auto
  next
    case True
    obtain e1 os1 where mk: "makedirs os (dirname ?fp) = (e1, os1)"
      by (cases "makedirs os (dirname ?fp)")
    have os1: "os1 = snd (makedirs os (dirname ?fp))" using mk by simp
    have rp1: "realpath os1 = realpath os" unfolding os1 by simp
    have f1: "lstat os1 q = Some (File b) \<Longrightarrow> lstat os q = Some (File b)" for q b
      using makedirs_lstat [of os "dirname ?fp" q] unfolding os1 by auto
    have nl1: "\<not> islink os1 ?fp" using True unfolding os1 by (simp add: makedirs_islink)
    show ?thesis
    proof (cases e1)
      case (Some e)
      with True mk show ?thesis unfolding step using rp1 f1 by auto
    next
      case None
      obtain e2 os2 where wr: "write_file os1 ?fp (body fi) = (e2, os2)"
        by (cases "write_file os1 ?fp (body fi)")
      have rp2: "realpath os2 = realpath os"
        using write_file_realpath [of os1 ?fp "body fi"] wr rp1 by simp
      show ?thesis
      proof (cases e2)
        case (Some e)
        with wr have "os2 = os1" by (simp add: write_file_error)
        with True mk None wr Some show ?thesis unfolding step using rp1 f1 by auto
      next
        case e2: None
        have l2: "lstat os2 q = (if q = ?fp then Some (File (body fi)) else lstat os1 q)" for q
          using write_file_lstat [OF _ nl1] wr e2 by simp
        have run: "upload_loop os d (fi # rest) = upload_loop os2 d rest"
          unfolding step using True mk None wr e2 by simp
        have prem: "\<forall>fj \<in> set rest. canonical (realpath os2 (join d (filename fj)))"
          using Cons.prems rp2 by simp
        note IH = Cons.IH [OF prem]
        show ?thesis
        proof (intro conjI allI impI)
          show "realpath (snd (upload_loop os d (fi # rest))) = realpath os"
            unfolding run using IH rp2 by simp
        next
          fix q b
          assume "lstat (snd (upload_loop os d (fi # rest))) q = Some (File b)"
          then have "lstat os2 q = Some (File b) \<or>
              (within d q \<and> (\<exists>fj \<in> set rest. q = realpath os2 (join d (filename fj)) \<and> b = body fj))"
            unfolding run using IH by blast
          then show "lstat os q = Some (File b) \<or>
              (within d q \<and>
               (\<exists>fj \<in> set (fi # rest). q = realpath os (join d (filename fj)) \<and> b = body fj))"
          proof
            assume a: "lstat os2 q = Some (File b)"
            show ?thesis
            proof (cases "q = ?fp")
              case True
              with a l2 [of q] have "b = body fi" by simp
              with True \<open>within d ?fp \<and> \<not> islink os ?fp\<close> show ?thesis by auto
            next
              case False
              with a l2 [of q] f1 show ?thesis by auto
            qed
          next
            assume "within d q \<and>
              (\<exists>fj \<in> set rest. q = realpath os2 (join d (filename fj)) \<and> b = body fj)"
            then show ?thesis using rp2 by auto
          qed
        qed
      qed
    qed
  qed
qed


lemma makedirs_realpath_eq: "makedirs os p = (e, os1) \<Longrightarrow> realpath os1 = realpath os"
  using makedirs_realpath [of os p] by simp

lemma write_file_realpath_eq: "write_file os p b = (e, os1) \<Longrightarrow> realpath os1 = realpath os"
  using write_file_realpath [of os p b] by simp

lemma makedirs_keeps: "makedirs os p = (e, os1) \<Longrightarrow> lstat os q = Some n \<Longrightarrow> lstat os1 q = Some n"
  using makedirs_lstat [of os p q] by auto

lemma upload_loop_success_Cons:
  assumes "upload_loop os d (fi # rest) = (Reply 200 [] ''Upload successful'', os')"
  shows "\<exists>os1 os2.
           commonpath (realpath os (join d (filename fi))) d = Inr d \<and>
           \<not> islink os (realpath os (join d (filename fi))) \<and>
           makedirs os (dirname (realpath os (join d (filename fi)))) = (None, os1) \<and>
           write_file os1 (realpath os (join d (filename fi))) (body fi) = (None, os2) \<and>
           upload_loop os2 d rest = (Reply 200 [] ''Upload successful'', os')"
  using assms
  by (simp add: Let_def split: sum.splits if_splits prod.splits option.splits)

lemma upload_loop_append:
  "upload_loop os d pre = (Reply 200 [] ''Upload successful'', os1) \<Longrightarrow>
   upload_loop os d (pre @ xs) = upload_loop os1 d xs"
proof (induction pre arbitrary: os)
  case Nil
  then show ?case by simp
next
  case (Cons fi rest)
  from upload_loop_success_Cons [OF Cons.prems]
  obtain osa osb where
    g: "commonpath (realpath os (join d (filename fi))) d = Inr d"
      "\<not> islink os (realpath os (join d (filename fi)))"
    and mk: "makedirs os (dirname (realpath os (join d (filename fi)))) = (None, osa)"
    and wr: "write_file osa (realpath os (join d (filename fi))) (body fi) = (None, osb)"
    and rest: "upload_loop osb d rest = (Reply 200 [] ''Upload successful'', os1)"
    by blast
  have "upload_loop os d ((fi # rest) @ xs) = upload_loop osb d (rest @ xs)"
    using g mk wr by (simp add: Let_def)
  also have "\<dots> = upload_loop os1 d xs" using Cons.IH [OF rest] .
  finally show ?case .
qed

lemma upload_loop_success_realpath:
  "upload_loop os d pre = (Reply 200 [] ''Upload successful'', os1) \<Longrightarrow> realpath os1 = realpath os"
proof (induction pre arbitrary: os)
  case Nil
  then show ?case by simp
next
  case (Cons fi rest)
  from upload_loop_success_Cons [OF Cons.prems]
  obtain osa osb where
    mk: "makedirs os (dirname (realpath os (join d (filename fi)))) = (None, osa)"
    and wr: "write_file osa (realpath os (join d (filename fi))) (body fi) = (None, osb)"
    and rest: "upload_loop osb d rest = (Reply 200 [] ''Upload successful'', os1)"
    by blast
  show ?case
    using Cons.IH [OF rest] makedirs_realpath_eq [OF mk] write_file_realpath_eq [OF wr] by simp
qed

lemma upload_loop_success_frame:
  "upload_loop os d pre = (Reply 200 [] ''Upload successful'', os1) \<Longrightarrow>
   lstat os q = Some (File b) \<Longrightarrow>
   \<forall>fj \<in> set pre. realpath os (join d (filename fj)) \<noteq> q \<Longrightarrow>
   lstat os1 q = Some (File b)"
proof (induction pre arbitrary: os)
  case Nil
  then show ?case by simp
next
  case (Cons fi rest)
  let ?fp = "realpath os (join d (filename fi))"
  from upload_loop_success_Cons [OF Cons.prems(1)]
  obtain osa osb where nl: "\<not> islink os ?fp"
    and mk: "makedirs os (dirname ?fp) = (None, osa)"
    and wr: "write_file osa ?fp (body fi) = (None, osb)"
    and rest: "upload_loop osb d rest = (Reply 200 [] ''Upload successful'', os1)"
    by blast
  have rpb: "realpath osb = realpath os"
    using makedirs_realpath_eq [OF mk] write_file_realpath_eq [OF wr] by simp
  have nla: "\<not> islink osa ?fp"
    using nl makedirs_islink [of os "dirname ?fp" ?fp] mk by simp
  have "lstat osa q = Some (File b)" using makedirs_keeps [OF mk Cons.prems(2)] .
  moreover have "q \<noteq> ?fp" using Cons.prems(3) by auto
  ultimately have "lstat osb q = Some (File b)"
    using write_file_lstat [OF wr nla, of q] by simp
  moreover have "\<forall>fj \<in> set rest. realpath osb (join d (filename fj)) \<noteq> q"
    using Cons.prems(3) rpb by simp
  ultimately show ?case using Cons.IH [OF rest] by blast
qed

lemma upload_loop_success_written:
  assumes "upload_loop os d pre = (Reply 200 [] ''Upload successful'', os1)"
    and "fi \<in> set pre"
  shows "lstat os1 (realpath os (join d (filename fi))) =
           Some (File (body (last (filter
             (\<lambda>fj. realpath os (join d (filename fj)) = realpath os (join d (filename fi))) pre))))"
  using assms
proof (induction pre arbitrary: os fi)
  case Nil
  then show ?case by simp
next
  case (Cons f rest)
  let ?rp = "\<lambda>x. realpath os (join d (filename x))"
  from upload_loop_success_Cons [OF Cons.prems(1)]
  obtain osa osb where nl: "\<not> islink os (?rp f)"
    and mk: "makedirs os (dirname (?rp f)) = (None, osa)"
    and wr: "write_file osa (?rp f) (body f) = (None, osb)"
    and rest: "upload_loop osb d rest = (Reply 200 [] ''Upload successful'', os1)"
    by blast
  have rpb: "realpath osb = realpath os"
    using makedirs_realpath_eq [OF mk] write_file_realpath_eq [OF wr] by simp
  have nla: "\<not> islink osa (?rp f)"
    using nl makedirs_islink [of os "dirname (?rp f)" "?rp f"] mk by simp
  have atf: "lstat osb (?rp f) = Some (File (body f))"
    using write_file_lstat [OF wr nla, of "?rp f"] by simp
  show ?case
  proof (cases "\<exists>fj \<in> set rest. ?rp fj = ?rp fi")
    case True
    then obtain fj where fj: "fj \<in> set rest" "?rp fj = ?rp fi" by blast
    have ne: "filter (\<lambda>x. ?rp x = ?rp fi) rest \<noteq> []"
      using fj by (auto simp: filter_empty_conv)
    have "lstat os1 (realpath osb (join d (filename fj))) =
        Some (File (body (last (filter
          (\<lambda>x. realpath osb (join d (filename x)) = realpath osb (join d (filename fj))) rest))))"
      using Cons.IH [OF rest fj(1)] .
    then have "lstat os1 (?rp fi) = Some (File (body (last (filter (\<lambda>x. ?rp x = ?rp fi) rest))))"
      using fj(2) rpb by simp
    moreover have "last (filter (\<lambda>x. ?rp x = ?rp fi) (f # rest)) =
        last (filter (\<lambda>x. ?rp x = ?rp fi) rest)"
      using ne by simp
    ultimately show ?thesis by simp
  next
    case False
    with Cons.prems(2) have eq: "?rp f = ?rp fi" by auto
    have none: "filter (\<lambda>x. ?rp x = ?rp fi) rest = []"
      using False by (auto simp: filter_empty_conv)
    have "\<forall>fj \<in> set rest. realpath osb (join d (filename fj)) \<noteq> ?rp f"
      using False eq rpb by simp
    then have "lstat os1 (?rp f) = Some (File (body f))"
      using upload_loop_success_frame [OF rest atf] by blast
    then show ?thesis using eq none by simp
  qed
qed


lemma UploadHandler_post_multi:
  assumes auth: "truthy user" and ne: "files \<noteq> []"
    and root: "canonical (ROOT_DIR g)"
    and cdir: "canonical (realpath os (join (ROOT_DIR g) directory))"
  shows "UploadHandler_post g os user directory files single =
           (if spec_resolve_accepts os (ROOT_DIR g) directory
            then upload_loop os (realpath os (join (ROOT_DIR g) directory)) files
            else (Reply 403 [] ''Forbidden'', os))"
proof -
  obtain c where "commonpath (realpath os (join (ROOT_DIR g) directory)) (ROOT_DIR g) = Inr c"
    and "c = ROOT_DIR g \<longleftrightarrow> within (ROOT_DIR g) (realpath os (join (ROOT_DIR g) directory))"
    using commonpath_guard [OF root cdir] by blast
  then show ?thesis
    using auth ne by (simp add: UploadHandler_post_def spec_resolve_accepts_def Let_def)
qed

section \<open>C3: the files of a batch stay in the target directory\<close>

text \<open>
  Claim C3. In a multi-file upload every relative path is resolved below the already
  resolved target directory \<open>dir_real\<close>. A regular file that the request creates or
  changes lies within \<open>dir_real\<close> (not merely within the root) and is the resolved path
  of an entry of the batch, holding that entry's body. An entry whose resolved path is
  not within \<open>dir_real\<close> is answered with 403 \<open>Forbidden path: ...\<close> in whatever state
  the loop reaches it, and the tree is left as it was. The witness is the path
  \<open>../other-sibling/x\<close>, which stays below the root.
\<close>

theorem upload_batch_contained_in_target:
  fixes g os directory
  defines "dir_real \<equiv> realpath os (join (ROOT_DIR g) directory)"
  assumes auth: "truthy user" and ne: "files \<noteq> []"
    and root: "canonical (ROOT_DIR g)"
    and cdir: "canonical dir_real"
    and cfiles: "\<forall>fi \<in> set files. canonical (realpath os (join dir_real (filename fi)))"
  shows "(\<forall>q b. lstat (snd (UploadHandler_post g os user directory files single)) q = Some (File b) \<longrightarrow>
            lstat os q = Some (File b) \<or>
            (within dir_real q \<and>
             (\<exists>fi \<in> set files. q = realpath os (join dir_real (filename fi)) \<and> b = body fi))) \<and>
         (\<forall>os' fi rest.
            realpath os' = realpath os \<and> fi \<in> set files \<and>
            \<not> within dir_real (realpath os (join dir_real (filename fi))) \<longrightarrow>
            upload_loop os' dir_real (fi # rest) =
              (Reply 403 [] (''Forbidden path: '' @ filename fi), os'))"
proof (intro conjI allI impI)
  fix q b
  assume a: "lstat (snd (UploadHandler_post g os user directory files single)) q = Some (File b)"
  have post: "UploadHandler_post g os user directory files single =
      (if spec_resolve_accepts os (ROOT_DIR g) directory then upload_loop os dir_real files
       else (Reply 403 [] ''Forbidden'', os))"
    unfolding dir_real_def
    using UploadHandler_post_multi [OF auth ne root] cdir unfolding dir_real_def by simp
  show "lstat os q = Some (File b) \<or>
        (within dir_real q \<and>
         (\<exists>fi \<in> set files. q = realpath os (join dir_real (filename fi)) \<and> b = body fi))"
  proof (cases "spec_resolve_accepts os (ROOT_DIR g) directory")
    case True
    with a post have "lstat (snd (upload_loop os dir_real files)) q = Some (File b)" by simp
    then show ?thesis using upload_loop_inv [OF cdir cfiles] by blast
  next
    case False
    with a post show ?thesis by simp
  qed
next
  fix os' :: os_state and fi :: file_info and rest :: "file_info list"
  assume a: "realpath os' = realpath os \<and> fi \<in> set files \<and>
             \<not> within dir_real (realpath os (join dir_real (filename fi)))"
  then have "canonical (realpath os' (join dir_real (filename fi)))"
    using cfiles by simp
  from upload_loop_Cons [OF cdir this, of rest] a
  show "upload_loop os' dir_real (fi # rest) =
          (Reply 403 [] (''Forbidden path: '' @ filename fi), os')"
    by simp
qed

lemma example_dir_a:
  "realpath example_os (join (ROOT_DIR example_globals) ''a'') = ''/root/a''"
  by (simp add: example_root example_realpath realpath_plain_def join_def isabs_def)

lemma example_paths:
  "realpath example_os (join ''/root/a'' ''one.txt'') = ''/root/a/one.txt''"
  "realpath example_os (join ''/root/a'' ''../other-sibling/x'') = ''/root/other-sibling/x''"
  "realpath example_os (join ''/root/a'' ''three.txt'') = ''/root/a/three.txt''"
  by (simp_all add: example_realpath realpath_plain_def join_def isabs_def)

lemma example_canonical:
  "canonical ''/root/a''" "canonical ''/root/a/one.txt''" "canonical ''/root/other-sibling/x''"
  "canonical ''/root/a/three.txt''"
  by (simp_all add: canonical_def components_def)

lemma example_accepts_a: "spec_resolve_accepts example_os (ROOT_DIR example_globals) ''a''"
  unfolding spec_resolve_accepts_def Let_def example_dir_a
  by (simp add: example_root within_def islink_def lstat_def example_os_def)

theorem upload_batch_contained_in_target_witness:
  "truthy (Some ''authenticated'') \<and>
   [\<lparr>filename = ''../other-sibling/x'', body = ''2''\<rparr>] \<noteq> [] \<and>
   canonical (ROOT_DIR example_globals) \<and>
   canonical (realpath example_os (join (ROOT_DIR example_globals) ''a'')) \<and>
   canonical (realpath example_os
     (join (realpath example_os (join (ROOT_DIR example_globals) ''a'')) ''../other-sibling/x'')) \<and>
   within (ROOT_DIR example_globals) (realpath example_os (join ''/root/a'' ''../other-sibling/x'')) \<and>
   \<not> within ''/root/a'' (realpath example_os (join ''/root/a'' ''../other-sibling/x'')) \<and>
   UploadHandler_post example_globals example_os (Some ''authenticated'') ''a''
       [\<lparr>filename = ''../other-sibling/x'', body = ''2''\<rparr>] []
     = (Reply 403 [] ''Forbidden path: ../other-sibling/x'', example_os)"
proof -
  let ?fs = "[\<lparr>filename = ''../other-sibling/x'', body = ''2''\<rparr>]"
  have ne: "?fs \<noteq> []" by simp
  have cdir: "canonical (realpath example_os (join (ROOT_DIR example_globals) ''a''))"
    unfolding example_dir_a by (rule example_canonical)
  have cfiles: "\<forall>fi \<in> set ?fs. canonical (realpath example_os
        (join (realpath example_os (join (ROOT_DIR example_globals) ''a'')) (filename fi)))"
    unfolding example_dir_a by (simp add: example_paths example_canonical)
  have w1: "within (ROOT_DIR example_globals)
      (realpath example_os (join ''/root/a'' ''../other-sibling/x''))"
    unfolding example_paths by (simp add: example_root within_def)
  have w2: "\<not> within ''/root/a'' (realpath example_os (join ''/root/a'' ''../other-sibling/x''))"
    unfolding example_paths by (simp add: within_def)
  have loop: "upload_loop example_os ''/root/a'' ?fs =
      (Reply 403 [] ''Forbidden path: ../other-sibling/x'', example_os)"
    using upload_batch_contained_in_target
      [OF example_truthy ne example_root_canonical cdir cfiles, of "[]"] w2
    unfolding example_dir_a by simp
  have "UploadHandler_post example_globals example_os (Some ''authenticated'') ''a'' ?fs [] =
      (Reply 403 [] ''Forbidden path: ../other-sibling/x'', example_os)"
    using UploadHandler_post_multi [OF example_truthy ne example_root_canonical cdir, of "[]"]
      example_accepts_a loop
    unfolding example_dir_a by simp
  moreover have "canonical (realpath example_os
     (join (realpath example_os (join (ROOT_DIR example_globals) ''a'')) ''../other-sibling/x''))"
    using cfiles by simp
  ultimately show ?thesis
    using example_truthy ne example_root_canonical cdir w1 w2 by blast
qed


section \<open>C7: a batch stops at the first refused entry\<close>

text \<open>
  Claim C7. When the entries \<open>pre\<close> before an entry \<open>bad\<close> have all been written (the loop
  over them alone ends with \<open>Upload successful\<close> in the tree \<open>os1\<close>) and the resolved path
  of \<open>bad\<close> is not within the target directory or is a link, the request for
  \<open>pre @ bad # post\<close> answers 403 with \<open>Forbidden path:\<close> followed by the relative path of
  \<open>bad\<close>; the tree afterwards is \<open>os1\<close>, so neither \<open>bad\<close> nor a later entry is written and
  nothing is rolled back: every earlier entry's resolved path holds the body of the
  last earlier entry written there.
\<close>

theorem upload_batch_stops_at_first_failure:
  fixes g os directory
  defines "dir_real \<equiv> realpath os (join (ROOT_DIR g) directory)"
  assumes auth: "truthy user"
    and root: "canonical (ROOT_DIR g)"
    and cdir: "canonical dir_real"
    and dir_ok: "spec_resolve_accepts os (ROOT_DIR g) directory"
    and cbad: "canonical (realpath os (join dir_real (filename bad)))"
    and pre_ok: "upload_loop os dir_real pre = (Reply 200 [] ''Upload successful'', os1)"
    and refused: "\<not> within dir_real (realpath os (join dir_real (filename bad))) \<or>
                  islink os1 (realpath os (join dir_real (filename bad)))"
  shows "UploadHandler_post g os user directory (pre @ bad # post) single =
           (Reply 403 [] (''Forbidden path: '' @ filename bad), os1) \<and>
         (\<forall>fi \<in> set pre.
            lstat os1 (realpath os (join dir_real (filename fi))) =
              Some (File (body (last (filter
                (\<lambda>fj. realpath os (join dir_real (filename fj)) =
                       realpath os (join dir_real (filename fi))) pre)))))"
proof
  have rp1: "realpath os1 = realpath os"
    using upload_loop_success_realpath [OF pre_ok] .
  have cbad1: "canonical (realpath os1 (join dir_real (filename bad)))"
    using cbad rp1 by simp
  have "UploadHandler_post g os user directory (pre @ bad # post) single =
      upload_loop os dir_real (pre @ bad # post)"
    using UploadHandler_post_multi [OF auth _ root, of "pre @ bad # post" os directory single]
      cdir dir_ok
    unfolding dir_real_def by simp
  also have "\<dots> = upload_loop os1 dir_real (bad # post)"
    using upload_loop_append [OF pre_ok] .
  also have "\<dots> = (Reply 403 [] (''Forbidden path: '' @ filename bad), os1)"
    using upload_loop_Cons [OF cdir cbad1, of post] refused rp1 by auto
  finally show "UploadHandler_post g os user directory (pre @ bad # post) single =
      (Reply 403 [] (''Forbidden path: '' @ filename bad), os1)" .
next
  show "\<forall>fi \<in> set pre.
          lstat os1 (realpath os (join dir_real (filename fi))) =
            Some (File (body (last (filter
              (\<lambda>fj. realpath os (join dir_real (filename fj)) =
                     realpath os (join dir_real (filename fi))) pre))))"
    using upload_loop_success_written [OF pre_ok] by blast
qed

lemma example_upload_one:
  "upload_loop example_os ''/root/a'' [\<lparr>filename = ''one.txt'', body = ''1''\<rparr>] =
     (Reply 200 [] ''Upload successful'', example_os_after_one)"
proof -
  have cp: "commonpath ''/root/a/one.txt'' ''/root/a'' = Inr ''/root/a''"
    by (simp add: commonpath_def isabs_def components_def)
  have nl: "\<not> islink example_os ''/root/a/one.txt''"
    by (simp add: islink_def lstat_def example_os_def)
  have dn: "dirname ''/root/a/one.txt'' = ''/root/a''"
    by (simp add: dirname_def head_part_def rstrip_sep_def)
  have c: "components ''/root/a'' = [''root'', ''a'']"
    by (simp add: components_def)
  have j: "join ''/'' ''root'' = ''/root''" "join ''/root'' ''a'' = ''/root/a''"
    by (simp_all add: join_def isabs_def)
  have d: "isdir example_os ''/root''" "isdir example_os ''/root/a''"
    by (simp_all add: isdir_def stat_def lstat_def example_os_def)
  have l: "lstat example_os ''/root'' = Some Dir" "lstat example_os ''/root/a'' = Some Dir"
    "lstat example_os ''/root/a/one.txt'' = None"
    by (simp_all add: lstat_def example_os_def)
  have mk: "makedirs example_os ''/root/a'' = (None, example_os)"
    by (simp add: makedirs_def c j d l)
  have wr: "write_file example_os ''/root/a/one.txt'' ''1'' = (None, example_os_after_one)"
    by (simp add: write_file_def nl dn d l example_os_after_one_def)
  show ?thesis
    by (simp add: Let_def example_paths cp nl dn mk wr)
qed

theorem upload_batch_stops_at_first_failure_witness:
  "truthy (Some ''authenticated'') \<and> canonical (ROOT_DIR example_globals) \<and>
   canonical (realpath example_os (join (ROOT_DIR example_globals) ''a'')) \<and>
   spec_resolve_accepts example_os (ROOT_DIR example_globals) ''a'' \<and>
   canonical (realpath example_os (join ''/root/a'' ''../other-sibling/x'')) \<and>
   upload_loop example_os ''/root/a'' [\<lparr>filename = ''one.txt'', body = ''1''\<rparr>] =
     (Reply 200 [] ''Upload successful'', example_os_after_one) \<and>
   \<not> within ''/root/a'' (realpath example_os (join ''/root/a'' ''../other-sibling/x'')) \<and>
   UploadHandler_post example_globals example_os (Some ''authenticated'') ''a'' example_batch []
     = (Reply 403 [] ''Forbidden path: ../other-sibling/x'', example_os_after_one) \<and>
   lstat example_os_after_one ''/root/a/one.txt'' = Some (File ''1'') \<and>
   lstat example_os_after_one ''/root/other-sibling/x'' = None \<and>
   lstat example_os_after_one ''/root/a/three.txt'' = None"
proof -
  let ?one = "\<lparr>filename = ''one.txt'', body = ''1''\<rparr>"
  let ?bad = "\<lparr>filename = ''../other-sibling/x'', body = ''2''\<rparr>"
  let ?three = "\<lparr>filename = ''three.txt'', body = ''3''\<rparr>"
  have cdir: "canonical (realpath example_os (join (ROOT_DIR example_globals) ''a''))"
    unfolding example_dir_a by (rule example_canonical)
  have cbad: "canonical (realpath example_os
      (join (realpath example_os (join (ROOT_DIR example_globals) ''a'')) (filename ?bad)))"
    unfolding example_dir_a by (simp add: example_paths example_canonical)
  have pre: "upload_loop example_os (realpath example_os (join (ROOT_DIR example_globals) ''a''))
      [?one] = (Reply 200 [] ''Upload successful'', example_os_after_one)"
    unfolding example_dir_a by (rule example_upload_one)
  have w2: "\<not> within ''/root/a'' (realpath example_os (join ''/root/a'' ''../other-sibling/x''))"
    unfolding example_paths by (simp add: within_def)
  have refused: "\<not> within (realpath example_os (join (ROOT_DIR example_globals) ''a''))
        (realpath example_os
          (join (realpath example_os (join (ROOT_DIR example_globals) ''a'')) (filename ?bad))) \<or>
      islink example_os_after_one (realpath example_os
          (join (realpath example_os (join (ROOT_DIR example_globals) ''a'')) (filename ?bad)))"
    unfolding example_dir_a using w2 by simp
  have batch: "example_batch = [?one] @ ?bad # [?three]"
    by (simp add: example_batch_def)
  have main: "UploadHandler_post example_globals example_os (Some ''authenticated'') ''a''
      example_batch [] = (Reply 403 [] ''Forbidden path: ../other-sibling/x'', example_os_after_one)"
    using upload_batch_stops_at_first_failure
      [OF example_truthy example_root_canonical cdir example_accepts_a cbad pre refused,
       of "[?three]" "[]"]
    unfolding batch by simp
  have c3: "canonical (realpath example_os (join ''/root/a'' ''../other-sibling/x''))"
    unfolding example_paths by (rule example_canonical)
  have after: "lstat example_os_after_one ''/root/a/one.txt'' = Some (File ''1'')"
    "lstat example_os_after_one ''/root/other-sibling/x'' = None"
    "lstat example_os_after_one ''/root/a/three.txt'' = None"
    by (simp_all add: example_os_after_one_def put_node_def lstat_def example_os_def)
  from example_truthy example_root_canonical cdir example_accepts_a c3 example_upload_one w2
    main after
  show ?thesis by blast
qed

section \<open>Removing nodes\<close>







section \<open>C8: delete\<close>





section \<open>Response headers\<close>

lemma set_header_content_type:
  "set_header [] ''Content-Type'' ''application/octet-stream'' =
     Inr [(''Content-Type'', ''application/octet-stream'')]"
  by (simp add: set_header_def)

lemma set_header_disposition:
  "set_header hs ''Content-Disposition'' (''attachment; filename='' @ [CHR 0x22] @ f @ [CHR 0x22]) =
     (if \<exists>c \<in> set f. of_char c < (32::nat) then Inl ValueError
      else Inr (hs @ [(''Content-Disposition'',
                  ''attachment; filename='' @ [CHR 0x22] @ f @ [CHR 0x22])]))"
  by (auto simp: set_header_def)

section \<open>C9: the download header\<close>






section \<open>Configuration and credentials\<close>

lemma main_token:
  "ACCESS_TOKEN (fst (main os cwd args config environ_token generated)) =
     Some (cookie_secret (snd (main os cwd args config environ_token generated)))"
  by (simp add: main_def Let_def)

lemma py_or_truthy: "truthy b \<Longrightarrow> truthy (py_or a b)"
  by (simp add: py_or_def)

lemma main_token_not_empty:
  assumes "generated \<noteq> []"
  shows "cookie_secret (snd (main os cwd args config environ_token generated)) \<noteq> []"
proof -
  have "truthy (Some generated)" using assms by (simp add: truthy_def)
  then have "truthy (py_or (py_or (py_or (opt_token args) (opt_token config)) environ_token)
                 (Some generated))"
    by (rule py_or_truthy)
  then show ?thesis
    by (auto simp: main_def Let_def truthy_def)
qed

section \<open>C10: the cookie secret is the access token\<close>

text \<open>
  Claim C10. \<open>main\<close> passes the access token as \<open>cookie_secret\<close>. So two servers started
  with the same token give the same answer of \<open>get_current_user\<close> for every cookie, and
  the token alone suffices to build a cookie that validates: the signed value made
  with the token as key, for the name \<open>user\<close>, any value and a timestamp that is not
  older than 31 days. It is the cookie that \<open>LoginHandler.post\<close> would set at that time.
\<close>

theorem cookie_secret_is_access_token:
  assumes gen: "generated \<noteq> []"
    and m: "m = main os cwd args config environ_token generated"
    and m': "m' = main os' cwd' args' config' environ_token' generated'"
    and same: "ACCESS_TOKEN (fst m') = ACCESS_TOKEN (fst m)"
    and fresh: "clock - 31 * 86400 \<le> ts"
  shows "ACCESS_TOKEN (fst m) = Some (cookie_secret (snd m)) \<and>
         get_current_user mac (snd m') clock cookie = get_current_user mac (snd m) clock cookie \<and>
         get_current_user mac (snd m) clock
             (Some (create_signed_value mac (the (ACCESS_TOKEN (fst m))) ''user'' v ts))
           = Returns (Some v) \<and>
         snd (LoginHandler_post mac (fst m) (snd m) ts (the (ACCESS_TOKEN (fst m))))
           = Some (create_signed_value mac (the (ACCESS_TOKEN (fst m))) ''user'' ''authenticated'' ts)"
proof (intro conjI)
  show tok: "ACCESS_TOKEN (fst m) = Some (cookie_secret (snd m))"
    unfolding m by (rule main_token)
  have "ACCESS_TOKEN (fst m') = Some (cookie_secret (snd m'))"
    unfolding m' by (rule main_token)
  with tok same have "cookie_secret (snd m') = cookie_secret (snd m)" by simp
  then show "get_current_user mac (snd m') clock cookie = get_current_user mac (snd m) clock cookie"
    by (simp add: get_current_user_def get_secure_cookie_def split: option.splits)
  have ne: "cookie_secret (snd m) \<noteq> []"
    unfolding m using gen by (rule main_token_not_empty)
  show "get_current_user mac (snd m) clock
             (Some (create_signed_value mac (the (ACCESS_TOKEN (fst m))) ''user'' v ts))
           = Returns (Some v)"
    using ne fresh tok
    by (simp add: get_current_user_def get_secure_cookie_def decode_signed_value_def
        create_signed_value_def)
  show "snd (LoginHandler_post mac (fst m) (snd m) ts (the (ACCESS_TOKEN (fst m))))
           = Some (create_signed_value mac (the (ACCESS_TOKEN (fst m))) ''user'' ''authenticated'' ts)"
    using ne tok by (simp add: LoginHandler_post_def set_secure_cookie_def)
qed

theorem cookie_secret_is_access_token_witness:
  "''generated-token'' \<noteq> [] \<and>
   ACCESS_TOKEN (fst (main example_os ''/'' example_args no_options None ''generated-token''))
     = Some ''secret'' \<and>
   cookie_secret (snd (main example_os ''/'' example_args no_options None ''generated-token''))
     = ''secret'' \<and>
   ACCESS_TOKEN (fst (main example_os ''/srv'' no_options example_args (Some ''other'') ''x''))
     = ACCESS_TOKEN (fst (main example_os ''/'' example_args no_options None ''generated-token'')) \<and>
   (1000::int) - 31 * 86400 \<le> 1000 \<and>
   get_current_user example_mac
       (snd (main example_os ''/'' example_args no_options None ''generated-token'')) 1000
       (Some (create_signed_value example_mac ''secret'' ''user'' ''authenticated'' 1000))
     = Returns (Some ''authenticated'') \<and>
   get_current_user example_mac
       (snd (main example_os ''/srv'' no_options example_args (Some ''other'') ''x'')) 1000
       (Some (create_signed_value example_mac ''secret'' ''user'' ''authenticated'' 1000))
     = Returns (Some ''authenticated'')"
proof -
  let ?m = "main example_os ''/'' example_args no_options None ''generated-token''"
  let ?m' = "main example_os ''/srv'' no_options example_args (Some ''other'') ''x''"
  have gen: "''generated-token'' \<noteq> []" by simp
  have t: "ACCESS_TOKEN (fst ?m) = Some ''secret''"
    by (simp add: main_def Let_def py_or_def truthy_def example_args_def no_options_def)
  have t': "ACCESS_TOKEN (fst ?m') = Some ''secret''"
    by (simp add: main_def Let_def py_or_def truthy_def example_args_def no_options_def)
  have s: "cookie_secret (snd ?m) = ''secret''"
    by (simp add: main_def Let_def py_or_def truthy_def example_args_def no_options_def)
  have same: "ACCESS_TOKEN (fst ?m') = ACCESS_TOKEN (fst ?m)" using t t' by simp
  have fresh: "(1000::int) - 31 * 86400 \<le> 1000" by simp
  note inst = cookie_secret_is_access_token [OF gen refl refl same fresh,
      of example_mac "Some (create_signed_value example_mac ''secret'' ''user'' ''authenticated'' 1000)"
         "''authenticated''"]
  from inst have
    a: "get_current_user example_mac (snd ?m) 1000
         (Some (create_signed_value example_mac ''secret'' ''user'' ''authenticated'' 1000))
        = Returns (Some ''authenticated'')"
    and b: "get_current_user example_mac (snd ?m') 1000
         (Some (create_signed_value example_mac ''secret'' ''user'' ''authenticated'' 1000))
        = get_current_user example_mac (snd ?m) 1000
         (Some (create_signed_value example_mac ''secret'' ''user'' ''authenticated'' 1000))"
    by (simp_all add: t s)
  from gen t s same fresh a b show ?thesis by simp
qed

section \<open>Reading lines\<close>



lemma read_lines_Nil [simp]: "read_lines [] = []"
  by (simp add: read_lines.simps)


lemma while_line_Nil [simp]: "while_line content pos wh [] = ([], pos, wh)"
  by (simp add: while_line.simps)












section \<open>C4: what a tick sends\<close>



lemma example_session_fields:
  "running example_session = Some True"
  "file_obj example_session = Some \<lparr>h_pos = 1, h_closed = False\<rparr>"
  "periodic example_session = Some True"
  by (simp_all add: example_session_def)





section \<open>C5: the backfill\<close>




section \<open>C6: a read error while streaming\<close>

text \<open>
  Claim C6 does not hold for the code. When the read of a tick raises, the exception
  leaves \<open>send_new_lines\<close> and is logged by the periodic callback; the handler is as it
  was, running, with the callback started and the handle open, so it is not closed,
  and the next tick sends again. Only \<open>on_close\<close> would close it.
\<close>

theorem tail_read_error_keeps_session_open:
  "periodic_run example_session (Inl (OSError ''EIO'')) =
     (Some (OSError ''EIO''), [], example_session) \<and>
   running example_session = Some True \<and>
   periodic example_session = Some True \<and>
   file_obj example_session = Some \<lparr>h_pos = 1, h_closed = False\<rparr> \<and>
   closed_session example_session = False \<and>
   periodic_run example_session (Inr (''xnew'' @ [LF])) =
     (None, [''new'' @ [LF]],
      example_session\<lparr>file_obj := Some \<lparr>h_pos = 5, h_closed = False\<rparr>\<rparr>) \<and>
   closed_session (on_close example_session) = True"
proof -
  have e: "periodic_run example_session (Inl (OSError ''EIO'')) =
     (Some (OSError ''EIO''), [], example_session)"
    by (simp add: periodic_run_def send_new_lines_def example_session_fields)
  have a: "readline_at (''xnew'' @ [LF]) 1 = (''new'' @ [LF], 5)"
    by (simp add: readline_at_def)
  have b: "readline_at (''xnew'' @ [LF]) 5 = ([], 5)"
    by (simp add: readline_at_def)
  have w: "while_line (''xnew'' @ [LF]) 5 1 (''new'' @ [LF]) = ([''new'' @ [LF]], 5, 5)"
    using b by (subst while_line.simps) simp
  have t: "periodic_run example_session (Inr (''xnew'' @ [LF])) =
     (None, [''new'' @ [LF]],
      example_session\<lparr>file_obj := Some \<lparr>h_pos = 5, h_closed = False\<rparr>\<rparr>)"
    using a w by (simp add: periodic_run_def send_new_lines_def example_session_fields)
  have c: "closed_session example_session = False"
    by (simp add: closed_session_def example_session_fields)
  have d: "closed_session (on_close example_session) = True"
    by (simp add: closed_session_def on_close_def example_session_fields)
  from e t c d example_session_fields show ?thesis by simp
qed

end
